theory Spec2Isabelle
  imports Complex_Main "HOL-Library.Word" "HOL-Library.Log_Nat"
begin

section \<open>The JavaScript values and built-ins that lib/browser.js relies on\<close>

text \<open>
  A JavaScript string is modelled as \<^typ>\<open>string\<close>: a list of code units, each an
  8-bit \<^typ>\<open>char\<close>, so the model covers the strings whose code units are below 256.
  A Number is a double. \<open>Num r\<close> carries the exact rational value of a finite double;
  the two zeros are one value \<open>Num 0\<close> (they compare equal and \<open>substr\<close> and \<open>+\<close> treat
  them alike).
\<close>

datatype jsnum = NaN | PosInf | NegInf | Num rat

datatype jsdata = Text string | ArrayBuffer "8 word list"

datatype exn = TypeError | DecodeError

subsection \<open>Rounding a rational to the nearest double (ties to even)\<close>

definition pow2 :: "int \<Rightarrow> rat" where
  "pow2 q = (if 0 \<le> q then of_int (2 ^ nat q) else 1 / of_int (2 ^ nat (- q)))"

definition pow10 :: "int \<Rightarrow> rat" where
  "pow10 q = (if 0 \<le> q then of_int (10 ^ nat q) else 1 / of_int (10 ^ nat (- q)))"

definition round_half_even :: "rat \<Rightarrow> int" where
  "round_half_even x =
     (let f = \<lfloor>x\<rfloor>; d = x - of_int f
      in if d < 1 / 2 then f else if 1 / 2 < d then f + 1 else if even f then f else f + 1)"

text \<open>For \<open>0 < v\<close>, \<open>ilog2 v\<close> is the exponent \<open>e\<close> of the leading bit: \<open>2^e \<le> v < 2^(e+1)\<close>.\<close>

definition ilog2 :: "rat \<Rightarrow> int" where
  "ilog2 v =
     (let d = bitlen (fst (quotient_of v)) - bitlen (snd (quotient_of v))
      in if pow2 d \<le> v then d else d - 1)"

text \<open>
  \<open>to_double v\<close>, for \<open>0 \<le> v\<close>: the double nearest to \<open>v\<close>. A double is \<open>k * 2^q\<close> with
  \<open>k < 2^53\<close> and \<open>-1074 \<le> q \<le> 971\<close>; a value that rounds to \<open>2^1024\<close> or more is Infinity.
\<close>

definition to_double :: "rat \<Rightarrow> jsnum" where
  "to_double v =
     (if v = 0 then Num 0
      else let q = max (ilog2 v - 52) (- 1074);
               r = of_int (round_half_even (v / pow2 q)) * pow2 q
           in if of_int (2 ^ 1024) \<le> r then PosInf else Num r)"

fun neg :: "jsnum \<Rightarrow> jsnum" where
  "neg NaN = NaN"
| "neg PosInf = NegInf"
| "neg NegInf = PosInf"
| "neg (Num r) = Num (- r)"

subsection \<open>\<open>Number(string)\<close>: the StringNumericLiteral grammar of ECMAScript\<close>

definition is_ws :: "char \<Rightarrow> bool" where
  "is_ws c = (of_char c \<in> {9, 10, 11, 12, 13, 32, 160 :: nat})"

definition trim :: "string \<Rightarrow> string" where
  "trim s = rev (dropWhile is_ws (rev (dropWhile is_ws s)))"

definition is_digit :: "char \<Rightarrow> bool" where
  "is_digit c = (c \<in> set ''0123456789'')"

text \<open>The value of a digit in a radix up to 16; 16 for a character that is no digit.\<close>

definition digit_of :: "char \<Rightarrow> int" where
  "digit_of c =
     (let k = (of_char c :: int)
      in if 48 \<le> k \<and> k \<le> 57 then k - 48
         else if 97 \<le> k \<and> k \<le> 102 then k - 87
         else if 65 \<le> k \<and> k \<le> 70 then k - 55
         else 16)"

definition digits_val :: "int \<Rightarrow> string \<Rightarrow> int" where
  "digits_val b ds = foldl (\<lambda>a c. a * b + digit_of c) 0 ds"

text \<open>\<open>0x\<close>, \<open>0o\<close>, \<open>0b\<close> literals: at least one digit of the radix, nothing else.\<close>

definition radix_literal :: "int \<Rightarrow> string \<Rightarrow> jsnum" where
  "radix_literal b ds =
     (if ds \<noteq> [] \<and> list_all (\<lambda>c. digit_of c < b) ds
      then to_double (of_int (digits_val b ds)) else NaN)"

text \<open>What follows the mantissa: nothing, or \<open>e\<close>/\<open>E\<close>, an optional sign and digits.\<close>

definition exponent_part :: "string \<Rightarrow> int option" where
  "exponent_part s =
     (case s of
        [] \<Rightarrow> Some 0
      | c # r \<Rightarrow>
          if c = CHR ''e'' \<or> c = CHR ''E'' then
            (let minus = (r \<noteq> [] \<and> hd r = CHR ''-'');
                 ds = (if r \<noteq> [] \<and> (hd r = CHR ''-'' \<or> hd r = CHR ''+'') then tl r else r)
             in if ds \<noteq> [] \<and> list_all is_digit ds
                then Some (if minus then - digits_val 10 ds else digits_val 10 ds)
                else None)
          else None)"

text \<open>
  StrUnsignedDecimalLiteral: \<open>Infinity\<close>, or digits with an optional fraction and
  exponent, where the digits before or after the point may be missing but not both.
\<close>

definition unsigned_decimal :: "string \<Rightarrow> jsnum" where
  "unsigned_decimal s =
     (if s = ''Infinity'' then PosInf
      else
        let ip = takeWhile is_digit s;
            r1 = dropWhile is_digit s;
            dot = (r1 \<noteq> [] \<and> hd r1 = CHR ''.'');
            fp = (if dot then takeWhile is_digit (tl r1) else []);
            r2 = (if dot then dropWhile is_digit (tl r1) else r1)
        in if ip = [] \<and> fp = [] then NaN
           else (case exponent_part r2 of
                   None \<Rightarrow> NaN
                 | Some e \<Rightarrow>
                     to_double (of_int (digits_val 10 (ip @ fp)) * pow10 (e - int (length fp)))))"

definition str_decimal_literal :: "string \<Rightarrow> jsnum" where
  "str_decimal_literal s =
     (if s \<noteq> [] \<and> hd s = CHR ''+'' then unsigned_decimal (tl s)
      else if s \<noteq> [] \<and> hd s = CHR ''-'' then neg (unsigned_decimal (tl s))
      else unsigned_decimal s)"

definition Number :: "string \<Rightarrow> jsnum" where
  "Number s =
     (let t = trim s
      in if t = [] then Num 0
         else if take 2 t = ''0x'' \<or> take 2 t = ''0X'' then radix_literal 16 (drop 2 t)
         else if take 2 t = ''0o'' \<or> take 2 t = ''0O'' then radix_literal 8 (drop 2 t)
         else if take 2 t = ''0b'' \<or> take 2 t = ''0B'' then radix_literal 2 (drop 2 t)
         else str_decimal_literal t)"

subsection \<open>Comparison, number to string, string methods\<close>

text \<open>Number::equal: NaN equals nothing, itself included.\<close>

fun num_eq :: "jsnum \<Rightarrow> jsnum \<Rightarrow> bool" where
  "num_eq (Num a) (Num b) = (a = b)"
| "num_eq PosInf PosInf = True"
| "num_eq NegInf NegInf = True"
| "num_eq _ _ = False"

text \<open>
  \<open>string != number\<close> and \<open>number != string\<close>: the loose comparison converts the string
  with \<open>Number\<close> and compares the two numbers.
\<close>

definition loose_ne :: "string \<Rightarrow> jsnum \<Rightarrow> bool" where
  "loose_ne s x = (\<not> num_eq (Number s) x)"

text \<open>A Number that is a non-negative integer: what a string length can equal.\<close>

fun is_length :: "jsnum \<Rightarrow> bool" where
  "is_length (Num r) = (0 \<le> r \<and> r = of_int \<lfloor>r\<rfloor>)"
| "is_length _ = False"

definition digit_char :: "nat \<Rightarrow> char" where
  "digit_char k = char_of (48 + k)"

text \<open>
  The string of a non-negative integer Number (a type code, a string length): its
  decimal digits. (JavaScript switches to exponent notation from \<open>10^21\<close> on; no string
  is that long.)
\<close>

fun nat_to_string :: "nat \<Rightarrow> string" where
  "nat_to_string n =
     (if n < 10 then [digit_char n] else nat_to_string (n div 10) @ [digit_char (n mod 10)])"

declare nat_to_string.simps [simp del]

definition charAt :: "string \<Rightarrow> nat \<Rightarrow> string" where
  "charAt s i = (if i < length s then [s ! i] else [])"

definition substring_from :: "string \<Rightarrow> nat \<Rightarrow> string" where
  "substring_from s start = drop start s"

text \<open>
  \<open>s.substr(start, len)\<close> for \<open>0 \<le> start\<close>: \<open>len\<close> is truncated to an integer (NaN to 0)
  and clamped between 0 and what is left of \<open>s\<close> after \<open>start\<close>.
\<close>

definition substr :: "string \<Rightarrow> nat \<Rightarrow> jsnum \<Rightarrow> string" where
  "substr s start len =
     (case len of
        NaN \<Rightarrow> []
      | NegInf \<Rightarrow> []
      | PosInf \<Rightarrow> drop start s
      | Num r \<Rightarrow> take (nat \<lfloor>r\<rfloor>) (drop start s))"

text \<open>\<open>String(x)\<close> of packet data: a string is itself, an ArrayBuffer prints its class.\<close>

fun js_String :: "jsdata \<Rightarrow> string" where
  "js_String (Text s) = s"
| "js_String (ArrayBuffer b) = ''[object ArrayBuffer]''"

section \<open>lib/browser.js\<close>

subsection \<open>Packets, the type table, the error packet\<close>

text \<open>
  A packet object: \<open>type\<close> is a string or undefined, \<open>data\<close> is a string, an
  ArrayBuffer, or absent. \<open>None\<close> is undefined.
\<close>

record packet =
  p_type :: "string option"
  p_data :: "jsdata option"

definition packets :: "(string \<times> nat) list" where
  "packets =
     [(''open'', 0), (''close'', 1), (''ping'', 2), (''pong'', 3),
      (''message'', 4), (''upgrade'', 5), (''noop'', 6)]"

text \<open>\<open>keys(packets)\<close>: the own property names, in insertion order.\<close>

definition packetslist :: "string list" where
  "packetslist = map fst packets"

text \<open>
  \<open>packets[packet.type]\<close>. \<open>packets\<close> is a plain object, so a name that is not one of
  its own properties is looked up in \<open>Object.prototype\<close> (\<open>toString\<close>, \<open>constructor\<close>,
  \<open>__proto__\<close>, ...). What that object holds, and how each of its values prints as a
  string, belongs to the runtime: it is the parameter \<open>proto\<close>, which gives for a name
  the string of the inherited value, and \<open>None\<close> for a name that is not inherited. An
  undefined \<open>packet.type\<close> is the key \<open>undefined\<close>.
\<close>

type_synonym prototype = "string \<Rightarrow> string option"

datatype property = Code nat | Inherited string | Undefined

definition packets_at :: "prototype \<Rightarrow> string option \<Rightarrow> property" where
  "packets_at proto t =
     (let key = (case t of None \<Rightarrow> ''undefined'' | Some name \<Rightarrow> name)
      in case map_of packets key of
           Some code \<Rightarrow> Code code
         | None \<Rightarrow> (case proto key of Some printed \<Rightarrow> Inherited printed | None \<Rightarrow> Undefined))"

text \<open>
  \<open>packetslist[type]\<close> with a string key (the result of \<open>charAt\<close>, at most one
  character long): an element when the key is the decimal string of an index of the
  array, undefined otherwise.
\<close>

definition packetslist_at_key :: "string \<Rightarrow> string option" where
  "packetslist_at_key k =
     (case filter (\<lambda>i. nat_to_string i = k) [0..<length packetslist] of
        [] \<Rightarrow> None
      | i # _ \<Rightarrow> Some (packetslist ! i))"

text \<open>\<open>packetslist[type]\<close> with the first byte of a buffer, or undefined, as key.\<close>

definition packetslist_at_index :: "nat option \<Rightarrow> string option" where
  "packetslist_at_index k =
     (case k of
        None \<Rightarrow> None
      | Some i \<Rightarrow> if i < length packetslist then Some (packetslist ! i) else None)"

definition err :: packet where
  "err = \<lparr>p_type = Some ''error'', p_data = Some (Text ''parser error'')\<rparr>"

text \<open>
  What a function returns or a callback receives as a packet: the one shared object
  \<open>err\<close>, or an object made by an object literal at the return statement.
\<close>

datatype obj = ErrObj | NewObj packet

fun deref :: "obj \<Rightarrow> packet" where
  "deref ErrObj = err"
| "deref (NewObj p) = p"

text \<open>
  The text codec of \<open>./utf8\<close> is not part of this file: it is a parameter. \<open>decode\<close>
  returns a string or throws; \<open>encode\<close> is called with \<open>strict: false\<close>.
\<close>

record utf8_module =
  utf8_encode :: "string \<Rightarrow> string"
  utf8_decode :: "string \<Rightarrow> exn + string"

subsection \<open>encodePacket\<close>

text \<open>
  The four-argument call; the value is what \<open>callback\<close> receives, always a string.
  The local \<open>data\<close> (the buffer of the packet's data) is computed and never read.
  \<open>encoded\<close> is a type code, or undefined, or an inherited value; \<open>+=\<close> with a string
  and \<open>"" + encoded\<close> turn it into its string.
\<close>

definition encodePacket ::
  "prototype \<Rightarrow> utf8_module \<Rightarrow> packet \<Rightarrow> bool \<Rightarrow> bool \<Rightarrow> string"
where
  "encodePacket proto utf8 packet supportsBinary utf8encode =
     (let encoded = (case packets_at proto (p_type packet) of
                       Undefined \<Rightarrow> ''undefined''
                     | Inherited printed \<Rightarrow> printed
                     | Code code \<Rightarrow> nat_to_string code)
      in case p_data packet of
           None \<Rightarrow> encoded
         | Some d \<Rightarrow>
             encoded @ (if utf8encode then utf8_encode utf8 (js_String d) else js_String d))"

subsection \<open>decodePacket\<close>

text \<open>\<open>tryDecode\<close>: the decoded string, or false (\<open>None\<close>) when the decoder throws.\<close>

definition tryDecode :: "utf8_module \<Rightarrow> string \<Rightarrow> string option" where
  "tryDecode utf8 data =
     (case utf8_decode utf8 data of Inl e \<Rightarrow> None | Inr decoded \<Rightarrow> Some decoded)"

text \<open>
  Modelled from the spec: \<open>sliceBuffer\<close> of the package arraybuffer.slice, the slice
  from an offset to the end of a buffer.
\<close>

definition sliceBuffer :: "8 word list \<Rightarrow> nat \<Rightarrow> 8 word list" where
  "sliceBuffer b start = drop start b"

definition decodePacket :: "utf8_module \<Rightarrow> jsdata option \<Rightarrow> string option \<Rightarrow> bool \<Rightarrow> obj" where
  "decodePacket utf8 data binaryType utf8decode =
     (case data of
        None \<Rightarrow> ErrObj
      | Some (Text s) \<Rightarrow>
          (case (if utf8decode then tryDecode utf8 s else Some s) of
             None \<Rightarrow> ErrObj
           | Some s' \<Rightarrow>
               (let type = charAt s' 0
                in if loose_ne type (Number type) \<or> packetslist_at_key type = None then ErrObj
                   else if 1 < length s'
                     then NewObj \<lparr>p_type = packetslist_at_key type,
                                  p_data = Some (Text (substring_from s' 1))\<rparr>
                     else NewObj \<lparr>p_type = packetslist_at_key type, p_data = None\<rparr>))
      | Some (ArrayBuffer b) \<Rightarrow>
          (let type = (case b of [] \<Rightarrow> None | x # _ \<Rightarrow> Some (unat x));
               rest = sliceBuffer b 1
           in NewObj \<lparr>p_type = packetslist_at_index type, p_data = Some (ArrayBuffer rest)\<rparr>))"

subsection \<open>encodePayload\<close>

text \<open>
  Modelled from the spec: \<open>hasBinary\<close> of the package has-binary2, whether any packet
  of the sequence carries binary data.
\<close>

definition hasBinary :: "packet list \<Rightarrow> bool" where
  "hasBinary pkts =
     list_ex (\<lambda>p. case p_data p of Some (ArrayBuffer b) \<Rightarrow> True | _ \<Rightarrow> False) pkts"

definition setLengthHeader :: "string \<Rightarrow> string" where
  "setLengthHeader message = nat_to_string (length message) @ '':'' @ message"

definition encodeOne ::
  "prototype \<Rightarrow> utf8_module \<Rightarrow> bool \<Rightarrow> bool \<Rightarrow> packet \<Rightarrow> string"
where
  "encodeOne proto utf8 isBinary supportsBinary packet =
     setLengthHeader
       (encodePacket proto utf8 packet (if \<not> isBinary then False else supportsBinary) False)"

text \<open>
  \<open>map(ary, each, done)\<close>: \<open>each\<close> completes at once here, so \<open>result[i]\<close> is written
  for every index in turn and \<open>done\<close> receives the whole array after the last one.
\<close>

definition map_ary :: "('a \<Rightarrow> 'b) \<Rightarrow> 'a list \<Rightarrow> 'b list" where
  "map_ary each ary = map each ary"

definition encodePayload ::
  "prototype \<Rightarrow> utf8_module \<Rightarrow> packet list \<Rightarrow> bool \<Rightarrow> string"
where
  "encodePayload proto utf8 pkts supportsBinary =
     (let isBinary = hasBinary pkts
      in if pkts = [] then ''0:''
         else concat (map_ary (encodeOne proto utf8 isBinary supportsBinary) pkts))"

subsection \<open>decodePayload\<close>

text \<open>
  The callback is a function of the consumer's state: it receives the packet, the
  position and the total, and returns a value of which only being \<open>false\<close> matters.
  A decode yields the list of the calls it made, each with what the callback returned,
  and the consumer's state afterwards.
\<close>

datatype ret = RetFalse | RetOther

type_synonym 's callback = "'s \<Rightarrow> obj \<Rightarrow> nat \<Rightarrow> nat \<Rightarrow> ret \<times> 's"

record call =
  arg_packet :: obj
  arg_index :: nat
  arg_total :: nat
  returned :: ret

text \<open>\<open>return callback(err, 0, 1)\<close>\<close>

definition parser_error :: "'s callback \<Rightarrow> 's \<Rightarrow> call list \<times> 's" where
  "parser_error callback st =
     (case callback st ErrObj 0 1 of
        (r, st') \<Rightarrow> ([\<lparr>arg_packet = ErrObj, arg_index = 0, arg_total = 1, returned = r\<rparr>], st'))"

text \<open>
  The \<open>for\<close> loop from index \<open>i\<close> with the accumulated prefix \<open>len\<close> (the source's
  \<open>length\<close>). Past the second guard \<open>n\<close> equals \<open>msg.length\<close>, so \<open>i + n\<close> is
  \<open>i + length msg\<close>; the loop's \<open>i++\<close> adds one more.
\<close>

function scan ::
  "utf8_module \<Rightarrow> 's callback \<Rightarrow> string option \<Rightarrow> string \<Rightarrow> nat \<Rightarrow> string \<Rightarrow> 's \<Rightarrow> call list \<times> 's"
where
  "scan utf8 callback binaryType data i len st =
     (let l = length data
      in if i < l then
           (let chr = data ! i
            in if chr \<noteq> CHR '':'' then scan utf8 callback binaryType data (i + 1) (len @ [chr]) st
               else if len = [] \<or> loose_ne len (Number len) then parser_error callback st
               else
                 (let n = Number len;
                      msg = substr data (i + 1) n
                  in if loose_ne len (Num (of_nat (length msg))) then parser_error callback st
                     else if msg \<noteq> [] then
                       (let packet = decodePacket utf8 (Some (Text msg)) binaryType False
                        in if p_type err = p_type (deref packet) \<and>
                              p_data err = p_data (deref packet)
                           then parser_error callback st
                           else
                             (case callback st packet (i + length msg) l of
                                (r, st') \<Rightarrow>
                                  (let c = \<lparr>arg_packet = packet, arg_index = i + length msg,
                                            arg_total = l, returned = r\<rparr>
                                   in if r = RetFalse then ([c], st')
                                      else
                                        (case scan utf8 callback binaryType data
                                                (i + length msg + 1) [] st' of
                                           (cs, st'') \<Rightarrow> (c # cs, st'')))))
                     else scan utf8 callback binaryType data (i + length msg + 1) [] st))
         else if len \<noteq> [] then parser_error callback st
         else ([], st))"
  by pat_completeness auto
termination
  by (relation "measure (\<lambda>(utf8, callback, binaryType, data, i, len, st). length data - i)") auto

declare scan.simps [simp del]

text \<open>
  \<open>decodePayload(data, binaryType, callback)\<close>. Reading \<open>length\<close> of undefined throws a
  TypeError; an ArrayBuffer has no \<open>length\<close>, so the loop does not run.
\<close>

definition decodePayload ::
  "utf8_module \<Rightarrow> jsdata option \<Rightarrow> string option \<Rightarrow> 's callback \<Rightarrow> 's \<Rightarrow> exn + call list \<times> 's"
where
  "decodePayload utf8 data binaryType callback st =
     (case data of
        None \<Rightarrow> Inl TypeError
      | Some (ArrayBuffer b) \<Rightarrow> Inr ([], st)
      | Some (Text s) \<Rightarrow>
          if s = [] then Inr (parser_error callback st)
          else Inr (scan utf8 callback binaryType s 0 [] st))"

subsection \<open>Callbacks and collaborators used at concrete inputs\<close>

definition plain_utf8 :: utf8_module where
  "plain_utf8 = \<lparr>utf8_encode = (\<lambda>s. s), utf8_decode = (\<lambda>s. Inr s)\<rparr>"

definition throwing_utf8 :: utf8_module where
  "throwing_utf8 = \<lparr>utf8_encode = (\<lambda>s. s), utf8_decode = (\<lambda>s. Inl DecodeError)\<rparr>"

text \<open>
  \<open>Object.prototype\<close> as V8 has it, each member as \<open>String\<close> prints it: the native
  functions, and for \<open>__proto__\<close> the prototype object itself.
\<close>

definition object_prototype :: prototype where
  "object_prototype = map_of
     [(''constructor'', ''function Object() { [native code] }''),
      (''__defineGetter__'', ''function __defineGetter__() { [native code] }''),
      (''__defineSetter__'', ''function __defineSetter__() { [native code] }''),
      (''hasOwnProperty'', ''function hasOwnProperty() { [native code] }''),
      (''__lookupGetter__'', ''function __lookupGetter__() { [native code] }''),
      (''__lookupSetter__'', ''function __lookupSetter__() { [native code] }''),
      (''isPrototypeOf'', ''function isPrototypeOf() { [native code] }''),
      (''propertyIsEnumerable'', ''function propertyIsEnumerable() { [native code] }''),
      (''toString'', ''function toString() { [native code] }''),
      (''valueOf'', ''function valueOf() { [native code] }''),
      (''__proto__'', ''[object Object]''),
      (''toLocaleString'', ''function toLocaleString() { [native code] }'')]"

text \<open>A consumer that counts its calls and goes on, and one that returns false.\<close>

definition cb_continue :: "nat callback" where
  "cb_continue st packet index l = (RetOther, st + 1)"

definition cb_stop :: "nat callback" where
  "cb_stop st packet index l = (RetFalse, st + 1)"

section \<open>Facts about the type table and the built-ins\<close>

lemma nat_to_string_codes:
  "nat_to_string 0 = ''0''" "nat_to_string (Suc 0) = ''1''" "nat_to_string 2 = ''2''"
  "nat_to_string 3 = ''3''" "nat_to_string 4 = ''4''" "nat_to_string 5 = ''5''"
  "nat_to_string 6 = ''6''"
  by code_simp+

lemma upto7: "[0..<7] = [0, Suc 0, 2, 3, 4, 5, 6]"
  by code_simp

lemma len7: "length packetslist = 7" by (simp add: packetslist_def packets_def)

lemma packetslist_at_key_cases:
  "packetslist_at_key k =
     (if k = ''0'' then Some ''open'' else if k = ''1'' then Some ''close''
      else if k = ''2'' then Some ''ping'' else if k = ''3'' then Some ''pong''
      else if k = ''4'' then Some ''message'' else if k = ''5'' then Some ''upgrade''
      else if k = ''6'' then Some ''noop'' else None)"
  unfolding packetslist_at_key_def len7 upto7
  apply (simp add: nat_to_string_codes)
  apply (simp add: packetslist_def packets_def)
  done

lemma type_digit_is_number:
  "\<not> loose_ne ''0'' (Number ''0'')" "\<not> loose_ne ''1'' (Number ''1'')"
  "\<not> loose_ne ''2'' (Number ''2'')" "\<not> loose_ne ''3'' (Number ''3'')"
  "\<not> loose_ne ''4'' (Number ''4'')" "\<not> loose_ne ''5'' (Number ''5'')"
  "\<not> loose_ne ''6'' (Number ''6'')"
  by code_simp+

lemma packets_at_cases:
  "packets_at proto (Some ''open'') = Code 0" "packets_at proto (Some ''close'') = Code (Suc 0)"
  "packets_at proto (Some ''ping'') = Code 2" "packets_at proto (Some ''pong'') = Code 3"
  "packets_at proto (Some ''message'') = Code 4" "packets_at proto (Some ''upgrade'') = Code 5"
  "packets_at proto (Some ''noop'') = Code 6"
  by (simp_all add: packets_at_def packets_def)

text \<open>A type name that is no own property of \<open>packets\<close> but an inherited one.\<close>

lemma encodePacket_inherited_name:
  "encodePacket object_prototype plain_utf8 \<lparr>p_type = Some ''toString'', p_data = None\<rparr>
     False False = ''function toString() { [native code] }''"
  by code_simp

lemma packetslist_names:
  "t \<in> set packetslist \<longleftrightarrow>
     t = ''open'' \<or> t = ''close'' \<or> t = ''ping'' \<or> t = ''pong'' \<or> t = ''message'' \<or>
     t = ''upgrade'' \<or> t = ''noop''"
  by (simp add: packetslist_def packets_def)

section \<open>Facts about the scanning loop\<close>

lemma scan_end:
  "\<not> i < length data \<Longrightarrow>
   scan utf8 cb bt data i len st = (if len \<noteq> [] then parser_error cb st else ([], st))"
  by (subst scan.simps) simp

lemma scan_char:
  "i < length data \<Longrightarrow> data ! i \<noteq> CHR '':'' \<Longrightarrow>
   scan utf8 cb bt data i len st = scan utf8 cb bt data (Suc i) (len @ [data ! i]) st"
  by (subst scan.simps) (simp add: Let_def)

lemma scan_bad_prefix:
  "i < length data \<Longrightarrow> data ! i = CHR '':'' \<Longrightarrow> len = [] \<or> loose_ne len (Number len) \<Longrightarrow>
   scan utf8 cb bt data i len st = parser_error cb st"
  by (subst scan.simps) (auto simp add: Let_def)

lemma scan_length_mismatch:
  "i < length data \<Longrightarrow> data ! i = CHR '':'' \<Longrightarrow>
   loose_ne len (Num (of_nat (length (substr data (i + 1) (Number len))))) \<Longrightarrow>
   scan utf8 cb bt data i len st = parser_error cb st"
  by (subst scan.simps) (auto simp add: Let_def)

lemma not_length_ne: "\<not> is_length x \<Longrightarrow> \<not> num_eq x (Num (of_nat k))"
  by (cases x) auto

text \<open>
  Past the guard \<open>length != msg.length\<close> the number \<open>n\<close> is the length of \<open>msg\<close>, which
  is why the loop may add \<open>length msg\<close> where the source adds \<open>n\<close>.
\<close>

lemma guard_gives_n: "\<not> loose_ne len (Num (of_nat k)) \<Longrightarrow> Number len = Num (of_nat k)"
  by (cases "Number len") (auto simp add: loose_ne_def)

lemma scan_accumulate:
  "CHR '':'' \<notin> set pre \<Longrightarrow> k \<le> length pre \<Longrightarrow>
   scan utf8 cb bt (pre @ CHR '':'' # rest) k (take k pre) st =
   scan utf8 cb bt (pre @ CHR '':'' # rest) (length pre) pre st"
proof (induction "length pre - k" arbitrary: k)
  case 0
  then show ?case by simp
next
  case (Suc m)
  then have lt: "k < length pre" by simp
  then have c: "(pre @ CHR '':'' # rest) ! k = pre ! k" by (simp add: nth_append)
  from lt Suc.prems(1) have ne: "pre ! k \<noteq> CHR '':''" by (metis nth_mem)
  have "scan utf8 cb bt (pre @ CHR '':'' # rest) k (take k pre) st =
        scan utf8 cb bt (pre @ CHR '':'' # rest) (Suc k) (take k pre @ [pre ! k]) st"
    using lt c ne by (simp add: scan_char)
  also have "take k pre @ [pre ! k] = take (Suc k) pre"
    using lt by (simp add: take_Suc_conv_app_nth)
  also have "scan utf8 cb bt (pre @ CHR '':'' # rest) (Suc k) (take (Suc k) pre) st =
        scan utf8 cb bt (pre @ CHR '':'' # rest) (length pre) pre st"
    using Suc.hyps(1) [of "Suc k"] Suc.hyps(2) Suc.prems lt by simp
  finally show ?case .
qed

lemma scan_step:
  assumes "scan utf8 cb bt data i len st = (tr, st')"
  shows "tr = [] \<or>
         (\<exists>r. tr = [\<lparr>arg_packet = ErrObj, arg_index = 0, arg_total = 1, returned = r\<rparr>]) \<or>
         (\<exists>p k. tr = [\<lparr>arg_packet = NewObj p, arg_index = k, arg_total = length data,
                        returned = RetFalse\<rparr>]) \<or>
         (\<exists>j len'. i < j \<and> i < length data \<and> scan utf8 cb bt data j len' st = (tr, st')) \<or>
         (\<exists>p k r cs st1 j. r \<noteq> RetFalse \<and> i < j \<and> i < length data \<and>
            tr = \<lparr>arg_packet = NewObj p, arg_index = k, arg_total = length data,
                  returned = r\<rparr> # cs \<and>
            scan utf8 cb bt data j [] st1 = (cs, st'))"
proof (cases "i < length data")
  case False
  with assms show ?thesis
    by (auto simp add: scan_end parser_error_def split: if_splits prod.splits)
next
  case True
  note lt = this
  show ?thesis
  proof (cases "data ! i = CHR '':''")
    case False
    with lt assms have "scan utf8 cb bt data (Suc i) (len @ [data ! i]) st = (tr, st')"
      by (simp add: scan_char)
    with lt show ?thesis by blast
  next
    case True
    let ?msg = "substr data (i + 1) (Number len)"
    let ?packet = "decodePacket utf8 (Some (Text ?msg)) bt False"
    show ?thesis
    proof (cases "len = [] \<or> loose_ne len (Number len) \<or>
                  loose_ne len (Num (of_nat (length ?msg)))")
      case True
      with lt \<open>data ! i = CHR '':''\<close> have "scan utf8 cb bt data i len st = parser_error cb st"
        by (auto simp add: scan_bad_prefix scan_length_mismatch)
      with assms show ?thesis by (auto simp add: parser_error_def split: prod.splits)
    next
      case False
      note guards = this
      show ?thesis
      proof (cases "?msg = []")
        case True
        with lt \<open>data ! i = CHR '':''\<close> guards assms
        have "scan utf8 cb bt data (i + length ?msg + 1) [] st = (tr, st')"
          by (subst (asm) scan.simps) (simp add: Let_def)
        moreover have "i < i + length ?msg + 1" by simp
        ultimately show ?thesis using lt by blast
      next
        case False
        note nonempty = this
        show ?thesis
        proof (cases ?packet)
          case ErrObj
          with lt \<open>data ! i = CHR '':''\<close> guards nonempty assms
          have "parser_error cb st = (tr, st')"
            by (subst (asm) scan.simps) (simp add: Let_def)
          then show ?thesis by (auto simp add: parser_error_def split: prod.splits)
        next
          case (NewObj p)
          show ?thesis
          proof (cases "p_type err = p_type p \<and> p_data err = p_data p")
            case True
            with NewObj lt \<open>data ! i = CHR '':''\<close> guards nonempty assms
            have "parser_error cb st = (tr, st')"
              by (subst (asm) scan.simps) (simp add: Let_def)
            then show ?thesis by (auto simp add: parser_error_def split: prod.splits)
          next
            case False
            obtain r st1 where cb: "cb st (NewObj p) (i + length ?msg) (length data) = (r, st1)"
              by (cases "cb st (NewObj p) (i + length ?msg) (length data)") auto
            obtain cs st2 where rec:
              "scan utf8 cb bt data (i + length ?msg + 1) [] st1 = (cs, st2)"
              by (cases "scan utf8 cb bt data (i + length ?msg + 1) [] st1") auto
            let ?c = "\<lparr>arg_packet = NewObj p, arg_index = i + length ?msg,
                            arg_total = length data, returned = r\<rparr>"
            show ?thesis
            proof (cases "r = RetFalse")
              case True
              with False NewObj lt \<open>data ! i = CHR '':''\<close> guards nonempty assms cb
              have "tr = [?c]"
                by (subst (asm) scan.simps) (auto simp add: Let_def)
              with True show ?thesis by auto
            next
              case notfalse: False
              with False NewObj lt \<open>data ! i = CHR '':''\<close> guards nonempty assms cb rec
              have "tr = ?c # cs \<and> st2 = st'"
                by (subst (asm) scan.simps) (auto simp add: Let_def)
              moreover have "i < i + length ?msg + 1" by simp
              ultimately show ?thesis using notfalse rec lt by blast
            qed
          qed
        qed
      qed
    qed
  qed
qed

lemma scan_calls:
  assumes "scan utf8 cb bt data i len st = (tr, st')"
  shows "(\<forall>c \<in> set (butlast tr). returned c \<noteq> RetFalse \<and> arg_packet c \<noteq> ErrObj) \<and>
         (\<forall>c \<in> set tr. arg_packet c = ErrObj \<longrightarrow> arg_index c = 0 \<and> arg_total c = 1)"
  using assms
proof (induction "length data - i" arbitrary: i len st tr st' rule: less_induct)
  case less
  from scan_step [OF less.prems]
  consider (short) "tr = []"
    | (error) r where
        "tr = [\<lparr>arg_packet = ErrObj, arg_index = 0, arg_total = 1, returned = r\<rparr>]"
    | (halt) p k where
        "tr = [\<lparr>arg_packet = NewObj p, arg_index = k, arg_total = length data,
                returned = RetFalse\<rparr>]"
    | (later) j len' where "i < j" "i < length data" "scan utf8 cb bt data j len' st = (tr, st')"
    | (packet) p k r cs st1 j where "r \<noteq> RetFalse" "i < j" "i < length data"
        "tr = \<lparr>arg_packet = NewObj p, arg_index = k, arg_total = length data,
               returned = r\<rparr> # cs"
        "scan utf8 cb bt data j [] st1 = (cs, st')"
    by blast
  then show ?case
  proof cases
    case short
    then show ?thesis by simp
  next
    case error
    then show ?thesis by simp
  next
    case halt
    then show ?thesis by simp
  next
    case later
    then have "length data - j < length data - i" by simp
    from less.hyps [OF this later(3)] show ?thesis .
  next
    case packet
    then have "length data - j < length data - i" by simp
    from less.hyps [OF this packet(5)]
    have ih: "(\<forall>c \<in> set (butlast cs). returned c \<noteq> RetFalse \<and> arg_packet c \<noteq> ErrObj) \<and>
         (\<forall>c \<in> set cs. arg_packet c = ErrObj \<longrightarrow> arg_index c = 0 \<and> arg_total c = 1)" .
    with packet(1) packet(4) show ?thesis by auto
  qed
qed

lemma nth_in_butlast: "Suc k < length xs \<Longrightarrow> xs ! k \<in> set (butlast xs)"
  by (metis Suc_lessD length_butlast less_diff_conv nth_butlast nth_mem Suc_eq_plus1)

lemma parser_error_calls: "parser_error cb st = (tr, st') \<Longrightarrow>
   \<exists>r. tr = [\<lparr>arg_packet = ErrObj, arg_index = 0, arg_total = 1, returned = r\<rparr>]"
  by (auto simp add: parser_error_def split: prod.splits)

lemma decodePayload_calls:
  assumes "decodePayload utf8 w bt cb st = Inr (tr, st')"
  shows "(\<forall>c \<in> set (butlast tr). returned c \<noteq> RetFalse \<and> arg_packet c \<noteq> ErrObj) \<and>
         (\<forall>c \<in> set tr. arg_packet c = ErrObj \<longrightarrow> arg_index c = 0 \<and> arg_total c = 1)"
proof (cases w)
  case None
  with assms show ?thesis by (simp add: decodePayload_def)
next
  case (Some d)
  show ?thesis
  proof (cases d)
    case (ArrayBuffer b)
    with Some assms show ?thesis by (auto simp add: decodePayload_def)
  next
    case (Text s)
    show ?thesis
    proof (cases "s = []")
      case True
      with Text Some assms have "parser_error cb st = (tr, st')" by (simp add: decodePayload_def)
      from parser_error_calls [OF this] show ?thesis by auto
    next
      case False
      with Text Some assms have "scan utf8 cb bt s 0 [] st = (tr, st')"
        by (simp add: decodePayload_def)
      then show ?thesis by (rule scan_calls)
    qed
  qed
qed

lemma Number_values:
  "Number ''0'' = Num 0" "Number ''4'' = Num 4" "Number ''+2'' = Num 2"
  "Number ''1e1'' = Num 10" "Number ''0x4'' = Num 4"
  by code_simp+

lemma scan_skip:
  "i < length data \<Longrightarrow> data ! i = CHR '':'' \<Longrightarrow> len \<noteq> [] \<Longrightarrow> Number len = Num 0 \<Longrightarrow>
   scan utf8 cb bt data i len st = scan utf8 cb bt data (Suc i) [] st"
  by (subst scan.simps) (simp add: Let_def loose_ne_def substr_def)

lemma scan_truncated:
  assumes "i < length data" "data ! i = CHR '':''" "Number len = Num (of_nat n)"
    "length data - (i + 1) < n"
  shows "scan utf8 cb bt data i len st = parser_error cb st"
proof -
  have "length (substr data (i + 1) (Number len)) < n"
    using assms(3,4) by (simp add: substr_def)
  then have "loose_ne len (Num (of_nat (length (substr data (i + 1) (Number len)))))"
    using assms(3) by (simp add: loose_ne_def)
  with assms(1,2) show ?thesis by (rule scan_length_mismatch)
qed

section \<open>Facts about decodePacket\<close>

lemma error_not_a_name: "''error'' \<notin> set packetslist"
  by (simp add: packetslist_names)

lemma decodePacket_text_type:
  "decodePacket codec (Some (Text s)) bt u = NewObj p \<Longrightarrow> \<exists>t \<in> set packetslist. p_type p = Some t"
  by (auto simp add: decodePacket_def Let_def packetslist_at_key_cases packetslist_names
        split: option.splits if_splits)

lemma decodePacket_binary_type:
  "decodePacket codec (Some (ArrayBuffer b)) bt u = NewObj p \<Longrightarrow>
   p_type p = None \<or> (\<exists>t \<in> set packetslist. p_type p = Some t)"
  by (auto simp add: decodePacket_def Let_def packetslist_at_index_def
        split: option.splits if_splits list.splits)

lemma decodePacket_type:
  assumes "decodePacket codec w bt u = NewObj p"
  shows "p_type p = None \<or> (\<exists>t \<in> set packetslist. p_type p = Some t)"
proof (cases w)
  case None
  with assms show ?thesis by (simp add: decodePacket_def)
next
  case (Some d)
  with assms show ?thesis
    by (cases d) (auto dest: decodePacket_text_type decodePacket_binary_type)
qed

lemma decodePacket_not_error:
  assumes "decodePacket codec w bt u = NewObj p"
  shows "p_type p \<noteq> Some ''error''"
  using decodePacket_type [OF assms] error_not_a_name by auto

section \<open>Facts about the failure paths of decodePayload\<close>

lemma decodePacket_bad_digit:
  "c \<notin> set ''0123456'' \<Longrightarrow> decodePacket codec (Some (Text (c # r))) bt False = ErrObj"
  by (simp add: decodePacket_def charAt_def packetslist_at_key_cases)

lemma scan_no_delimiter:
  "CHR '':'' \<notin> set t \<Longrightarrow> k \<le> length t \<Longrightarrow>
   scan codec cb bt t k len st =
     (if len @ drop k t \<noteq> [] then parser_error cb st else ([], st))"
proof (induction "length t - k" arbitrary: k len)
  case 0
  then show ?case by (simp add: scan_end)
next
  case (Suc m)
  then have lt: "k < length t" by simp
  with Suc.prems(1) have ne: "t ! k \<noteq> CHR '':''" by (metis nth_mem)
  have d: "drop k t = t ! k # drop (Suc k) t"
    using lt by (simp add: Cons_nth_drop_Suc)
  have "scan codec cb bt t k len st = scan codec cb bt t (Suc k) (len @ [t ! k]) st"
    using lt ne by (simp add: scan_char)
  also have "\<dots> = (if (len @ [t ! k]) @ drop (Suc k) t \<noteq> [] then parser_error cb st
                    else ([], st))"
    using Suc.hyps(1) [of "Suc k"] Suc.hyps(2) Suc.prems lt by simp
  finally show ?case using d by simp
qed

lemma scan_bad_packet:
  assumes "j < length data" "data ! j = CHR '':''" "pre \<noteq> []"
    "Number pre = Num (of_nat n)" "0 < n" "j + n < length data"
    "data ! (j + 1) \<notin> set ''0123456''"
  shows "scan codec cb bt data j pre st = parser_error cb st"
proof -
  let ?msg = "take n (drop (Suc j) data)"
  have m: "substr data (j + 1) (Number pre) = ?msg"
    using assms(4) by (simp add: substr_def)
  have l: "length ?msg = n"
    using assms(6) by simp
  have "drop (Suc j) data = data ! (Suc j) # drop (Suc (Suc j)) data"
    using assms(5,6) by (simp add: Cons_nth_drop_Suc)
  with assms(5) have h: "?msg = data ! (Suc j) # take (n - 1) (drop (Suc (Suc j)) data)"
    by (cases n) simp_all
  have "decodePacket codec (Some (Text (data ! (Suc j) # take (n - 1) (drop (Suc (Suc j)) data))))
          bt False = ErrObj"
    using assms(7) by (simp add: decodePacket_bad_digit)
  with h have e: "decodePacket codec (Some (Text ?msg)) bt False = ErrObj" by simp
  have g1: "\<not> loose_ne pre (Number pre)"
    using assms(4) by (simp add: loose_ne_def)
  have g2: "\<not> loose_ne pre (Num (of_nat (length ?msg)))"
    using assms(4) l by (simp add: loose_ne_def)
  have ne: "?msg \<noteq> []" using h by simp
  show ?thesis
    apply (subst scan.simps)
    using assms(1,2,3) g1 g2 ne e
    apply (simp only: Let_def m)
    apply simp
    done
qed

section \<open>The claims\<close>

subsection \<open>C1: text round trip of a packet\<close>

text \<open>
  C1, as the code has it. For each of the seven type names and every text \<open>d\<close>,
  \<open>encodePacket\<close> on the text channel (no binary, no utf8 encoding) followed by
  \<open>decodePacket\<close> returns the type, and the data \<open>d\<close> unchanged when \<open>d\<close> is not
  empty; for the empty \<open>d\<close> the decoded packet has no data field, because a
  one-character wire string takes the branch \<open>return { type: ... }\<close>.
\<close>

theorem text_round_trip:
  "t \<in> set packetslist \<Longrightarrow>
   decodePacket codec (Some (Text (encodePacket proto codec
       \<lparr>p_type = Some t, p_data = Some (Text d)\<rparr> False False))) bt False
     = NewObj \<lparr>p_type = Some t, p_data = (if d = [] then None else Some (Text d))\<rparr>"
  unfolding packetslist_names
  by (elim disjE)
     (simp_all add: decodePacket_def encodePacket_def packets_at_cases nat_to_string_codes
        charAt_def substring_from_def packetslist_at_key_cases type_digit_is_number)

text \<open>
  The round trip at the packet \<open>{type: "message", data: "hi"}\<close>.
\<close>

theorem text_round_trip_witness:
  "''message'' \<in> set packetslist \<and>
   decodePacket plain_utf8 (Some (Text (encodePacket object_prototype plain_utf8
       \<lparr>p_type = Some ''message'', p_data = Some (Text ''hi'')\<rparr> False False))) None False
     = NewObj \<lparr>p_type = Some ''message'', p_data = Some (Text ''hi'')\<rparr>"
proof -
  have h: "''message'' \<in> set packetslist" by (simp add: packetslist_names)
  from text_round_trip
         [OF h, where codec = plain_utf8 and proto = object_prototype and d = "''hi''" and
            bt = None] h
  show ?thesis by simp
qed

text \<open>
  C1 as stated fails at the empty string: \<open>{type: "message", data: ""}\<close> is encoded
  as \<open>"4"\<close>, which decodes to \<open>{type: "message"}\<close>, not to a packet with data \<open>""\<close>.
\<close>

theorem text_round_trip_empty_counterexample:
  "decodePacket plain_utf8 (Some (Text (encodePacket object_prototype plain_utf8
       \<lparr>p_type = Some ''message'', p_data = Some (Text '''')\<rparr> False False))) None False
     \<noteq> NewObj \<lparr>p_type = Some ''message'', p_data = Some (Text '''')\<rparr>"
  by code_simp

subsection \<open>C2: binary data is not encoded as a buffer\<close>

text \<open>
  C2: with \<open>supportsBinary\<close> true and an ArrayBuffer holding the bytes 1, 2, 3 as
  data, \<open>encodePacket\<close> hands the callback the string \<open>4[object ArrayBuffer]\<close>: the
  type code followed by \<open>String(packet.data)\<close>, not a buffer of the bytes 4, 1, 2, 3.
\<close>

theorem encodePacket_binary_is_stringified:
  "encodePacket object_prototype plain_utf8
     \<lparr>p_type = Some ''message'', p_data = Some (ArrayBuffer [1, 2, 3])\<rparr> True False
     = ''4[object ArrayBuffer]''"
  by code_simp

subsection \<open>C3: the payload of two messages\<close>

text \<open>
  C3, as the code has it. The length header counts the whole encoded packet, type digit
  included, so the two messages are framed as \<open>12:4hello world3:4hi\<close>; decoding that
  stream calls the callback twice, in order, with the two packets (positions 14 and 19
  of 20).
\<close>

theorem payload_round_trip_example:
  "encodePayload object_prototype plain_utf8
     [\<lparr>p_type = Some ''message'', p_data = Some (Text ''hello world'')\<rparr>,
      \<lparr>p_type = Some ''message'', p_data = Some (Text ''hi'')\<rparr>] False
     = ''12:4hello world3:4hi'' \<and>
   decodePayload plain_utf8 (Some (Text ''12:4hello world3:4hi'')) None cb_continue 0 =
     Inr ([\<lparr>arg_packet =
              NewObj \<lparr>p_type = Some ''message'', p_data = Some (Text ''hello world'')\<rparr>,
             arg_index = 14, arg_total = 20, returned = RetOther\<rparr>,
           \<lparr>arg_packet = NewObj \<lparr>p_type = Some ''message'', p_data = Some (Text ''hi'')\<rparr>,
             arg_index = 19, arg_total = 20, returned = RetOther\<rparr>], 2)"
  by code_simp

text \<open>
  C3 as stated fails: the stream produced is not \<open>11:4hello world2:4hi\<close>.
\<close>

theorem payload_stream_counterexample:
  "encodePayload object_prototype plain_utf8
     [\<lparr>p_type = Some ''message'', p_data = Some (Text ''hello world'')\<rparr>,
      \<lparr>p_type = Some ''message'', p_data = Some (Text ''hi'')\<rparr>] False
   \<noteq> ''11:4hello world2:4hi''"
  by code_simp

subsection \<open>C4: decoding does not raise\<close>

text \<open>
  C4, as the code has it. \<open>decodePacket\<close> returns the error packet for undefined
  input and when the utf8 decoder throws (\<open>tryDecode\<close> catches it). For every string,
  \<open>decodePayload\<close> returns normally, having made its calls; a call that carries the
  error packet is the last one and has the arguments \<open>(0, 1)\<close>. Every malformed input
  ends in that call, \<open>callback(err, 0, 1)\<close>: the empty stream; a stream with no
  delimiter, and any scan that ends inside a length prefix; at a delimiter, an empty
  prefix, a prefix that \<open>Number\<close> does not convert to a non-negative integer, a declared
  length beyond the end of the stream, and a frame whose first character is not a type
  digit (for the loop at any position, and for the first frame of a stream). The
  callback itself is taken not to throw.
\<close>

theorem decoding_does_not_raise:
  "(utf8_decode codec s = Inl e \<longrightarrow> decodePacket codec (Some (Text s)) bt True = ErrObj) \<and>
   decodePacket codec None bt u = ErrObj \<and>
   (\<exists>tr st'. decodePayload codec (Some (Text s)) bt cb st = Inr (tr, st') \<and>
      (\<forall>k < length tr. arg_packet (tr ! k) = ErrObj \<longrightarrow>
         Suc k = length tr \<and> arg_index (tr ! k) = 0 \<and> arg_total (tr ! k) = 1)) \<and>
   decodePayload codec (Some (Text '''')) bt cb st = Inr (parser_error cb st) \<and>
   (t \<noteq> [] \<and> CHR '':'' \<notin> set t \<longrightarrow>
      decodePayload codec (Some (Text t)) bt cb st = Inr (parser_error cb st)) \<and>
   (length data \<le> i \<and> len \<noteq> [] \<longrightarrow>
      scan codec cb bt data i len st = parser_error cb st) \<and>
   (j < length data \<and> data ! j = CHR '':'' \<and>
    (pre = [] \<or> \<not> is_length (Number pre) \<or>
     Number pre = Num (of_nat n) \<and>
       (length data - (j + 1) < n \<or>
        0 < n \<and> j + n < length data \<and> data ! (j + 1) \<notin> set ''0123456'')) \<longrightarrow>
      scan codec cb bt data j pre st = parser_error cb st) \<and>
   (CHR '':'' \<notin> set pre \<and> pre \<noteq> [] \<and> Number pre = Num (of_nat (length (c # r))) \<and>
    c \<notin> set ''0123456'' \<longrightarrow>
      decodePayload codec (Some (Text (pre @ CHR '':'' # c # r @ rest))) bt cb st =
        Inr (parser_error cb st)) \<and>
   fst (parser_error cb st) =
     [\<lparr>arg_packet = ErrObj, arg_index = 0, arg_total = 1, returned = fst (cb st ErrObj 0 1)\<rparr>]"
proof (intro conjI impI)
  assume "utf8_decode codec s = Inl e"
  then show "decodePacket codec (Some (Text s)) bt True = ErrObj"
    by (simp add: decodePacket_def tryDecode_def)
next
  show "decodePacket codec None bt u = ErrObj"
    by (simp add: decodePacket_def)
next
  have "\<exists>r. decodePayload codec (Some (Text s)) bt cb st = Inr r"
    by (simp add: decodePayload_def)
  then obtain tr st' where d: "decodePayload codec (Some (Text s)) bt cb st = Inr (tr, st')"
    by (metis surj_pair)
  have "\<forall>k < length tr. arg_packet (tr ! k) = ErrObj \<longrightarrow>
         Suc k = length tr \<and> arg_index (tr ! k) = 0 \<and> arg_total (tr ! k) = 1"
  proof (intro allI impI)
    fix k
    assume k: "k < length tr" and e: "arg_packet (tr ! k) = ErrObj"
    from k have m: "tr ! k \<in> set tr" by simp
    have "Suc k = length tr"
    proof (rule ccontr)
      assume "Suc k \<noteq> length tr"
      with k have "Suc k < length tr" by simp
      then have "tr ! k \<in> set (butlast tr)" by (rule nth_in_butlast)
      with decodePayload_calls [OF d] e show False by blast
    qed
    with decodePayload_calls [OF d] m e
    show "Suc k = length tr \<and> arg_index (tr ! k) = 0 \<and> arg_total (tr ! k) = 1" by blast
  qed
  with d show "\<exists>tr st'. decodePayload codec (Some (Text s)) bt cb st = Inr (tr, st') \<and>
      (\<forall>k < length tr. arg_packet (tr ! k) = ErrObj \<longrightarrow>
         Suc k = length tr \<and> arg_index (tr ! k) = 0 \<and> arg_total (tr ! k) = 1)"
    by blast
next
  show "decodePayload codec (Some (Text '''')) bt cb st = Inr (parser_error cb st)"
    by (simp add: decodePayload_def)
next
  assume "t \<noteq> [] \<and> CHR '':'' \<notin> set t"
  then show "decodePayload codec (Some (Text t)) bt cb st = Inr (parser_error cb st)"
    using scan_no_delimiter [of t 0 codec cb bt "[]" st] by (simp add: decodePayload_def)
next
  assume "length data \<le> i \<and> len \<noteq> []"
  then show "scan codec cb bt data i len st = parser_error cb st"
    by (simp add: scan_end)
next
  assume a: "j < length data \<and> data ! j = CHR '':'' \<and>
    (pre = [] \<or> \<not> is_length (Number pre) \<or>
     Number pre = Num (of_nat n) \<and>
       (length data - (j + 1) < n \<or>
        0 < n \<and> j + n < length data \<and> data ! (j + 1) \<notin> set ''0123456''))"
  then consider (empty) "pre = []"
    | (nolength) "\<not> is_length (Number pre)"
    | (truncated) "Number pre = Num (of_nat n)" "length data - (j + 1) < n"
    | (badpacket) "pre \<noteq> []" "Number pre = Num (of_nat n)" "0 < n" "j + n < length data"
        "data ! (j + 1) \<notin> set ''0123456''"
    by blast
  then show "scan codec cb bt data j pre st = parser_error cb st"
  proof cases
    case empty
    with a show ?thesis by (simp add: scan_bad_prefix)
  next
    case nolength
    then have "loose_ne pre (Num (of_nat (length (substr data (j + 1) (Number pre)))))"
      by (simp add: loose_ne_def not_length_ne)
    with a show ?thesis by (simp add: scan_length_mismatch)
  next
    case truncated
    with a show ?thesis by (simp add: scan_truncated)
  next
    case badpacket
    with a show ?thesis by (simp add: scan_bad_packet)
  qed
next
  assume b: "CHR '':'' \<notin> set pre \<and> pre \<noteq> [] \<and>
    Number pre = Num (of_nat (length (c # r))) \<and> c \<notin> set ''0123456''"
  let ?d = "pre @ CHR '':'' # c # r @ rest"
  have "scan codec cb bt ?d 0 [] st = scan codec cb bt ?d (length pre) pre st"
    using b scan_accumulate [of pre 0 codec cb bt "c # r @ rest" st] by simp
  also have "\<dots> = parser_error cb st"
  proof (rule scan_bad_packet)
    show "length pre < length ?d" by simp
    show "?d ! length pre = CHR '':''" by simp
    show "pre \<noteq> []" using b by simp
    show "Number pre = Num (of_nat (length (c # r)))" using b by simp
    show "0 < length (c # r)" by simp
    show "length pre + length (c # r) < length ?d" by simp
    show "?d ! (length pre + 1) \<notin> set ''0123456''" using b by (simp add: nth_append)
  qed
  finally show "decodePayload codec (Some (Text ?d)) bt cb st = Inr (parser_error cb st)"
    by (simp add: decodePayload_def)
next
  show "fst (parser_error cb st) =
     [\<lparr>arg_packet = ErrObj, arg_index = 0, arg_total = 1, returned = fst (cb st ErrObj 0 1)\<rparr>]"
    by (simp add: parser_error_def split: prod.splits)
qed

text \<open>
  A decoder that always throws on the string \<open>4hi\<close>, which has no delimiter; the
  stream \<open>2:9a\<close>, whose frame \<open>9a\<close> has no valid type digit; and the end of a scan
  with the prefix \<open>9\<close> pending.
\<close>

theorem decoding_does_not_raise_witness:
  "utf8_decode throwing_utf8 ''4hi'' = Inl DecodeError \<and>
   decodePacket throwing_utf8 (Some (Text ''4hi'')) None True = ErrObj \<and>
   (''4hi'' \<noteq> [] \<and> CHR '':'' \<notin> set ''4hi'') \<and>
   decodePayload throwing_utf8 (Some (Text ''4hi'')) None cb_continue 0 =
     Inr ([\<lparr>arg_packet = ErrObj, arg_index = 0, arg_total = 1, returned = RetOther\<rparr>], 1) \<and>
   (length ''2:9a'' \<le> 4 \<and> ''9'' \<noteq> []) \<and>
   scan throwing_utf8 cb_continue None ''2:9a'' 4 ''9'' 0 =
     ([\<lparr>arg_packet = ErrObj, arg_index = 0, arg_total = 1, returned = RetOther\<rparr>], 1) \<and>
   (1 < length ''2:9a'' \<and> ''2:9a'' ! 1 = CHR '':'' \<and> Number ''2'' = Num (of_nat 2) \<and>
    (0::nat) < 2 \<and> 1 + 2 < length ''2:9a'' \<and> ''2:9a'' ! (1 + 1) \<notin> set ''0123456'') \<and>
   scan throwing_utf8 cb_continue None ''2:9a'' 1 ''2'' 0 =
     ([\<lparr>arg_packet = ErrObj, arg_index = 0, arg_total = 1, returned = RetOther\<rparr>], 1) \<and>
   (CHR '':'' \<notin> set ''2'' \<and> ''2'' \<noteq> [] \<and> Number ''2'' = Num (of_nat (length ''9a'')) \<and>
    CHR ''9'' \<notin> set ''0123456'') \<and>
   decodePayload throwing_utf8 (Some (Text ''2:9a'')) None cb_continue 0 =
     Inr ([\<lparr>arg_packet = ErrObj, arg_index = 0, arg_total = 1, returned = RetOther\<rparr>], 1)"
proof -
  have h: "utf8_decode throwing_utf8 ''4hi'' = Inl DecodeError"
    by (simp add: throwing_utf8_def)
  have n: "Number ''2'' = Num 2" by code_simp
  have e: "parser_error cb_continue 0 =
     ([\<lparr>arg_packet = ErrObj, arg_index = 0, arg_total = 1, returned = RetOther\<rparr>], 1)"
    by (simp add: parser_error_def cb_continue_def)
  from decoding_does_not_raise
         [where codec = throwing_utf8 and s = "''4hi''" and e = DecodeError and bt = None and
            cb = cb_continue and st = 0 and t = "''4hi''" and data = "''2:9a''" and i = 4 and
            len = "''9''" and j = 1 and pre = "''2''" and n = 2 and c = "CHR ''9''" and
            r = "''a''" and rest = "[]"]
       h n e
  show ?thesis by simp
qed

text \<open>
  C4 as stated fails for \<open>decodePayload\<close> on undefined input: \<open>data === ""\<close> is
  false and reading \<open>data.length\<close> throws a TypeError.
\<close>

theorem decodePayload_undefined_counterexample:
  "decodePayload plain_utf8 None None cb_continue 0 = Inl TypeError"
  by code_simp

subsection \<open>C5: the inputs that decodePacket rejects\<close>

text \<open>
  C5: \<open>decodePacket\<close> returns the error packet \<open>{type: "error", data: "parser error"}\<close>
  for undefined, for the empty string, and for every string whose first character is
  not one of the digits 0 to 6, such as \<open>9hello\<close> and \<open>astring\<close>. It returns: the
  function is total.
\<close>

theorem decodePacket_error_cases:
  "decodePacket codec None bt u = ErrObj \<and>
   decodePacket codec (Some (Text '''')) bt False = ErrObj \<and>
   (c \<notin> set ''0123456'' \<longrightarrow> decodePacket codec (Some (Text (c # r))) bt False = ErrObj) \<and>
   decodePacket codec (Some (Text ''9hello'')) bt False = ErrObj \<and>
   decodePacket codec (Some (Text ''astring'')) bt False = ErrObj \<and>
   deref ErrObj = \<lparr>p_type = Some ''error'', p_data = Some (Text ''parser error'')\<rparr>"
  by (simp add: decodePacket_def charAt_def packetslist_at_key_cases err_def)

text \<open>
  The general case at the string \<open>9hello\<close>.
\<close>

theorem decodePacket_error_cases_witness:
  "CHR ''9'' \<notin> set ''0123456'' \<and>
   decodePacket plain_utf8 (Some (Text ''9hello'')) None False = ErrObj"
proof -
  have h: "CHR ''9'' \<notin> set ''0123456''" by simp
  from decodePacket_error_cases [of plain_utf8 None False "CHR ''9''" "''hello''"] h
  show ?thesis by simp
qed

subsection \<open>C6: length prefixes that are not lengths\<close>




subsection \<open>C7: truncated frames\<close>

text \<open>
  C7, as the code has it. \<open>3:4ab\<close> is a complete frame: its three characters \<open>4ab\<close>
  decode to \<open>{type: "message", data: "ab"}\<close>, delivered in one call with no error. A
  frame whose declared length exceeds what is left of the stream, such as \<open>4:4ab\<close>,
  aborts with the single call \<open>callback(err, 0, 1)\<close>.
\<close>

theorem truncated_frame_aborts:
  "decodePayload plain_utf8 (Some (Text ''3:4ab'')) None cb_continue 0 =
     Inr ([\<lparr>arg_packet = NewObj \<lparr>p_type = Some ''message'', p_data = Some (Text ''ab'')\<rparr>,
             arg_index = 4, arg_total = 5, returned = RetOther\<rparr>], 1) \<and>
   decodePayload codec (Some (Text ''4:4ab'')) bt cb st = Inr (parser_error cb st) \<and>
   (i < length data \<and> data ! i = CHR '':'' \<and> Number len = Num (of_nat n) \<and>
    length data - (i + 1) < n \<longrightarrow>
      scan codec cb bt data i len st = parser_error cb st) \<and>
   fst (parser_error cb st) =
     [\<lparr>arg_packet = ErrObj, arg_index = 0, arg_total = 1, returned = fst (cb st ErrObj 0 1)\<rparr>]"
proof (intro conjI impI)
  show "decodePayload plain_utf8 (Some (Text ''3:4ab'')) None cb_continue 0 =
     Inr ([\<lparr>arg_packet = NewObj \<lparr>p_type = Some ''message'', p_data = Some (Text ''ab'')\<rparr>,
             arg_index = 4, arg_total = 5, returned = RetOther\<rparr>], 1)"
    by code_simp
next
  have "scan codec cb bt ''4:4ab'' 0 [] st = scan codec cb bt ''4:4ab'' (Suc 0) ''4'' st"
    by (simp add: scan_char)
  also have "\<dots> = parser_error cb st"
    using scan_truncated [of "Suc 0" "''4:4ab''" "''4''" 4 codec cb bt st]
    by (simp add: Number_values)
  finally show "decodePayload codec (Some (Text ''4:4ab'')) bt cb st = Inr (parser_error cb st)"
    by (simp add: decodePayload_def)
next
  assume "i < length data \<and> data ! i = CHR '':'' \<and> Number len = Num (of_nat n) \<and>
    length data - (i + 1) < n"
  then show "scan codec cb bt data i len st = parser_error cb st"
    by (simp add: scan_truncated)
next
  show "fst (parser_error cb st) =
     [\<lparr>arg_packet = ErrObj, arg_index = 0, arg_total = 1, returned = fst (cb st ErrObj 0 1)\<rparr>]"
    by (simp add: parser_error_def split: prod.splits)
qed

text \<open>
  The truncated stream \<open>4:4ab\<close> at its delimiter.
\<close>

theorem truncated_frame_aborts_witness:
  "(1 < length ''4:4ab'' \<and> ''4:4ab'' ! 1 = CHR '':'' \<and> Number ''4'' = Num (of_nat 4) \<and>
    length ''4:4ab'' - (1 + 1) < (4::nat)) \<and>
   scan plain_utf8 cb_continue None ''4:4ab'' 1 ''4'' 0 = parser_error cb_continue 0 \<and>
   decodePayload plain_utf8 (Some (Text ''4:4ab'')) None cb_continue 0 =
     Inr ([\<lparr>arg_packet = ErrObj, arg_index = 0, arg_total = 1, returned = RetOther\<rparr>], 1)"
proof -
  have h: "1 < length ''4:4ab'' \<and> ''4:4ab'' ! 1 = CHR '':'' \<and> Number ''4'' = Num (of_nat 4) \<and>
    length ''4:4ab'' - (1 + 1) < (4::nat)"
    by (simp add: Number_values)
  have e: "parser_error cb_continue 0 =
     ([\<lparr>arg_packet = ErrObj, arg_index = 0, arg_total = 1, returned = RetOther\<rparr>], 1)"
    by (simp add: parser_error_def cb_continue_def)
  from truncated_frame_aborts
         [where i = 1 and data = "''4:4ab''" and len = "''4''" and n = 4 and
            codec = plain_utf8 and cb = cb_continue and bt = None and st = 0] h e
  show ?thesis by simp
qed

text \<open>
  C7 as stated fails: decoding \<open>3:4ab\<close> does not deliver the error packet.
\<close>

theorem truncated_frame_counterexample:
  "decodePayload plain_utf8 (Some (Text ''3:4ab'')) None cb_continue 0 \<noteq>
     Inr ([\<lparr>arg_packet = ErrObj, arg_index = 0, arg_total = 1, returned = RetOther\<rparr>], 1)"
  by code_simp

subsection \<open>C8: the empty payload\<close>

text \<open>
  C8: \<open>encodePayload\<close> of no packets delivers the string \<open>0:\<close>, and \<open>decodePayload\<close>
  of \<open>0:\<close> makes no call at all and leaves the consumer's state as it was.
\<close>

theorem empty_payload:
  "encodePayload proto codec [] supportsBinary = ''0:'' \<and>
   decodePayload codec (Some (Text ''0:'')) bt cb st = Inr ([], st)"
proof
  show "encodePayload proto codec [] supportsBinary = ''0:''"
    by (simp add: encodePayload_def)
next
  have "scan codec cb bt ''0:'' 0 [] st = scan codec cb bt ''0:'' (Suc 0) ''0'' st"
    by (simp add: scan_char)
  also have "\<dots> = scan codec cb bt ''0:'' (Suc (Suc 0)) [] st"
    by (simp add: scan_skip Number_values)
  also have "\<dots> = ([], st)"
    by (simp add: scan_end)
  finally show "decodePayload codec (Some (Text ''0:'')) bt cb st = Inr ([], st)"
    by (simp add: decodePayload_def)
qed

subsection \<open>C9: a callback that returns false stops the decode\<close>

text \<open>
  C9: in the list of calls that a decode makes, a call whose callback returned false
  is the last one, whatever the stream and whatever follows in it.
\<close>

theorem false_return_halts:
  "decodePayload codec w bt cb st = Inr (tr, st') \<Longrightarrow> k < length tr \<Longrightarrow>
   returned (tr ! k) = RetFalse \<Longrightarrow> Suc k = length tr"
proof (rule ccontr)
  assume d: "decodePayload codec w bt cb st = Inr (tr, st')" and k: "k < length tr"
    and f: "returned (tr ! k) = RetFalse" and n: "Suc k \<noteq> length tr"
  from k n have "Suc k < length tr" by simp
  then have "tr ! k \<in> set (butlast tr)" by (rule nth_in_butlast)
  with decodePayload_calls [OF d] f show False by blast
qed

text \<open>
  Two valid frames and a consumer that returns false: one call is made.
\<close>

theorem false_return_halts_witness:
  "decodePayload plain_utf8 (Some (Text ''2:4a2:4b'')) None cb_stop 0 =
     Inr ([\<lparr>arg_packet = NewObj \<lparr>p_type = Some ''message'', p_data = Some (Text ''a'')\<rparr>,
             arg_index = 3, arg_total = 8, returned = RetFalse\<rparr>], 1) \<and>
   Suc 0 = length [\<lparr>arg_packet = NewObj \<lparr>p_type = Some ''message'', p_data = Some (Text ''a'')\<rparr>,
             arg_index = 3, arg_total = 8, returned = RetFalse\<rparr>]"
proof -
  let ?tr = "[\<lparr>arg_packet = NewObj \<lparr>p_type = Some ''message'', p_data = Some (Text ''a'')\<rparr>,
             arg_index = 3, arg_total = 8, returned = RetFalse\<rparr>]"
  have d: "decodePayload plain_utf8 (Some (Text ''2:4a2:4b'')) None cb_stop 0 = Inr (?tr, 1)"
    by code_simp
  have k: "0 < length ?tr" by simp
  have f: "returned (?tr ! 0) = RetFalse" by simp
  from false_return_halts [OF d k f] d show ?thesis by simp
qed

subsection \<open>C10: only a failed decode looks like the error packet\<close>

text \<open>
  C10: a packet that \<open>decodePacket\<close> makes never has the type \<open>error\<close>: on the text
  path its type is one of the seven names, on the binary path one of the names or
  undefined. So the comparison of \<open>decodePayload\<close>, by type and data against \<open>err\<close>,
  holds exactly when \<open>decodePacket\<close> returned the shared error packet.
\<close>

theorem decodePacket_sentinel_only_on_failure:
  "(decodePacket codec w bt u = NewObj p \<longrightarrow>
      p_type p \<noteq> Some ''error'' \<and>
      (p_type p = None \<or> (\<exists>t \<in> set packetslist. p_type p = Some t))) \<and>
   (decodePacket codec (Some (Text s)) bt u = NewObj q \<longrightarrow>
      (\<exists>t \<in> set packetslist. p_type q = Some t)) \<and>
   ((p_type err = p_type (deref (decodePacket codec w bt u)) \<and>
     p_data err = p_data (deref (decodePacket codec w bt u)))
      \<longleftrightarrow> decodePacket codec w bt u = ErrObj)"
proof (intro conjI impI)
  assume "decodePacket codec w bt u = NewObj p"
  then show "p_type p \<noteq> Some ''error''" by (rule decodePacket_not_error)
next
  assume "decodePacket codec w bt u = NewObj p"
  then show "p_type p = None \<or> (\<exists>t \<in> set packetslist. p_type p = Some t)"
    by (rule decodePacket_type)
next
  assume "decodePacket codec (Some (Text s)) bt u = NewObj q"
  then show "\<exists>t \<in> set packetslist. p_type q = Some t" by (rule decodePacket_text_type)
next
  show "(p_type err = p_type (deref (decodePacket codec w bt u)) \<and>
         p_data err = p_data (deref (decodePacket codec w bt u)))
        \<longleftrightarrow> decodePacket codec w bt u = ErrObj"
  proof (cases "decodePacket codec w bt u")
    case ErrObj
    then show ?thesis by simp
  next
    case (NewObj r)
    then have "p_type r \<noteq> Some ''error''" by (rule decodePacket_not_error)
    with NewObj show ?thesis by (auto simp add: err_def)
  qed
qed

text \<open>
  The frame \<open>4hi\<close>: a new packet of type \<open>message\<close>, which the comparison lets pass.
\<close>

theorem decodePacket_sentinel_only_on_failure_witness:
  "decodePacket plain_utf8 (Some (Text ''4hi'')) None False
     = NewObj \<lparr>p_type = Some ''message'', p_data = Some (Text ''hi'')\<rparr> \<and>
   ''message'' \<in> set packetslist \<and>
   \<not> (p_type err = p_type (deref (decodePacket plain_utf8 (Some (Text ''4hi'')) None False)) \<and>
      p_data err = p_data (deref (decodePacket plain_utf8 (Some (Text ''4hi'')) None False)))"
proof -
  have h: "decodePacket plain_utf8 (Some (Text ''4hi'')) None False
     = NewObj \<lparr>p_type = Some ''message'', p_data = Some (Text ''hi'')\<rparr>"
    by code_simp
  from h decodePacket_sentinel_only_on_failure
         [of plain_utf8 "Some (Text ''4hi'')" None False
             "\<lparr>p_type = Some ''message'', p_data = Some (Text ''hi'')\<rparr>" "''4hi''"
             "\<lparr>p_type = Some ''message'', p_data = Some (Text ''hi'')\<rparr>"]
  show ?thesis by simp
qed

end
